theory Spec2Isabelle
  imports Main "HOL-Library.Word"
begin

unbundle bit_operations_syntax

section \<open>Values shared by the handlers\<close>

text \<open>
  A Go \<open>error\<close> is an interface value; only its being nil or not is ever inspected by
  \<open>app.go\<close>. A returned error is \<open>error option\<close> (\<open>None\<close> is nil), a result with an
  error is \<open>error + 'a\<close>. A run-time panic is a separate value: it is never returned to
  the caller, it unwinds the handler.
\<close>

datatype error = Error string

datatype panic = NilPointerDereference | IndexOutOfRange | BadDimensions

type_synonym bytes = "8 word list"

section \<open>Colours (package \<open>image/color\<close>)\<close>

text \<open>
  \<open>color.Color\<close> is an interface with the single method \<open>RGBA()\<close>. The conversion
  used by \<open>convertToGray\<close> only asks whether the dynamic type is \<open>color.Gray16\<close> and
  otherwise calls \<open>RGBA()\<close>, so a colour is either a \<open>Gray16\<close> with its field \<open>Y\<close>, or a
  value of any other colour type, given by the four 32-bit results of its \<open>RGBA()\<close>.
\<close>

datatype color = Gray16 "16 word" | RGBAColor "32 word" "32 word" "32 word" "32 word"

text \<open>
  \<open>color.Gray16Model.Convert\<close>:
  \<^verbatim>\<open>
  if _, ok := c.(Gray16); ok { return c }
  r, g, b, _ := c.RGBA()
  y := (19595*r + 38470*g + 7471*b + 1<<15) >> 16
  return Gray16{uint16(y)}
  \<close>
  The arithmetic is on \<open>uint32\<close> and wraps.
\<close>

fun gray16Model :: "color \<Rightarrow> color" where
  "gray16Model (Gray16 y) = Gray16 y"
| "gray16Model (RGBAColor r g b a) =
     Gray16 (ucast (drop_bit 16 (19595 * r + 38470 * g + 7471 * b + push_bit 15 1)))"

text \<open>
  The comma-ok type assertion \<open>gray, _ := c.(color.Gray16)\<close>: the asserted value and
  \<open>True\<close>, or the zero \<open>Gray16\<close> and \<open>False\<close> when the dynamic type is another one.
\<close>

fun assertGray16 :: "color \<Rightarrow> 16 word \<times> bool" where
  "assertGray16 (Gray16 y) = (y, True)"
| "assertGray16 (RGBAColor r g b a) = (0, False)"

section \<open>Rectangles and images (package \<open>image\<close>)\<close>

record Point =
  X :: int
  Y :: int

record Rectangle =
  Min_pt :: Point
  Max_pt :: Point

definition Dx :: "Rectangle \<Rightarrow> int" where
  "Dx r = X (Max_pt r) - X (Min_pt r)"

definition Dy :: "Rectangle \<Rightarrow> int" where
  "Dy r = Y (Max_pt r) - Y (Min_pt r)"

text \<open>\<open>Point{x, y}.In(r)\<close>.\<close>

definition In :: "int \<Rightarrow> int \<Rightarrow> Rectangle \<Rightarrow> bool" where
  "In x y r \<longleftrightarrow> X (Min_pt r) \<le> x \<and> x < X (Max_pt r) \<and> Y (Min_pt r) \<le> y \<and> y < Y (Max_pt r)"

text \<open>\<open>image.Gray16\<close>: big-endian 16-bit samples in \<open>Pix\<close>, \<open>Stride\<close> bytes per row.\<close>

record Gray16Image =
  Pix :: bytes
  Stride :: int
  Rect :: Rectangle

text \<open>
  \<open>image.NewGray16\<close> allocates a zeroed buffer of \<open>2 * Dx * Dy\<close> bytes. Its length is
  computed by \<open>pixelBufferLength\<close>, which panics when a dimension is negative or the
  product does not fit a 64-bit \<open>int\<close> (\<open>mul3NonNeg\<close> returns -1).
\<close>

definition mul3NonNeg :: "int \<Rightarrow> int \<Rightarrow> int \<Rightarrow> int" where
  "mul3NonNeg x y z =
     (if x < 0 \<or> y < 0 \<or> z < 0 then -1
      else if 2 ^ 64 \<le> x * y then -1
      else if 2 ^ 64 \<le> x * y * z then -1
      else if 2 ^ 63 \<le> x * y * z then -1
      else x * y * z)"

definition pixelBufferLength :: "int \<Rightarrow> Rectangle \<Rightarrow> panic + nat" where
  "pixelBufferLength bytesPerPixel r =
     (let totalLength = mul3NonNeg bytesPerPixel (Dx r) (Dy r)
      in if totalLength < 0 then Inl BadDimensions else Inr (nat totalLength))"

definition NewGray16 :: "Rectangle \<Rightarrow> panic + Gray16Image" where
  "NewGray16 r =
     (case pixelBufferLength 2 r of
        Inl p \<Rightarrow> Inl p
      | Inr n \<Rightarrow> Inr \<lparr>Pix = replicate n 0, Stride = 2 * Dx r, Rect = r\<rparr>)"

definition PixOffset :: "Gray16Image \<Rightarrow> int \<Rightarrow> int \<Rightarrow> int" where
  "PixOffset p x y = (y - Y (Min_pt (Rect p))) * Stride p + (x - X (Min_pt (Rect p))) * 2"

text \<open>Indexing a slice panics outside \<open>0 \<le> i < len\<close>.\<close>

definition index_ok :: "bytes \<Rightarrow> int \<Rightarrow> bool" where
  "index_ok pix i \<longleftrightarrow> 0 \<le> i \<and> i < int (length pix)"

text \<open>
  \<open>(*Gray16).Set\<close>:
  \<^verbatim>\<open>
  if !(Point{x, y}.In(p.Rect)) { return }
  i := p.PixOffset(x, y)
  c1 := color.Gray16Model.Convert(c).(color.Gray16)
  p.Pix[i+0] = uint8(c1.Y >> 8)
  p.Pix[i+1] = uint8(c1.Y)
  \<close>
\<close>

definition Set_Gray16 :: "Gray16Image \<Rightarrow> int \<Rightarrow> int \<Rightarrow> color \<Rightarrow> panic + Gray16Image" where
  "Set_Gray16 p x y c =
     (if \<not> In x y (Rect p) then Inr p
      else
        let i = PixOffset p x y;
            c1 = fst (assertGray16 (gray16Model c))
        in if \<not> index_ok (Pix p) i then Inl IndexOutOfRange
           else
             let pix1 = (Pix p)[nat i := ucast (drop_bit 8 c1)]
             in if \<not> index_ok pix1 (i + 1) then Inl IndexOutOfRange
                else Inr (p\<lparr>Pix := pix1[nat (i + 1) := ucast c1]\<rparr>))"

text \<open>
  \<open>(*Gray16).At\<close>, that is \<open>Gray16At\<close>:
  \<^verbatim>\<open>
  if !(Point{x, y}.In(p.Rect)) { return color.Gray16{} }
  i := p.PixOffset(x, y)
  return color.Gray16{Y: uint16(p.Pix[i+0])<<8 | uint16(p.Pix[i+1])}
  \<close>
\<close>

definition Gray16At :: "Gray16Image \<Rightarrow> int \<Rightarrow> int \<Rightarrow> panic + color" where
  "Gray16At p x y =
     (if \<not> In x y (Rect p) then Inr (Gray16 0)
      else
        let i = PixOffset p x y
        in if \<not> index_ok (Pix p) i \<or> \<not> index_ok (Pix p) (i + 1) then Inl IndexOutOfRange
           else Inr (Gray16 (push_bit 8 (ucast (Pix p ! nat i)) OR ucast (Pix p ! nat (i + 1)))))"

text \<open>
  A non-nil \<open>image.Image\<close>: either a \<open>*image.Gray16\<close>, or an image of any other type,
  given by what its methods \<open>Bounds()\<close> and \<open>At(x, y)\<close> return. The nil interface value is
  \<open>None\<close> of \<open>Image option\<close>.
\<close>

datatype Image = Gray16Img Gray16Image | OtherImg Rectangle "int \<Rightarrow> int \<Rightarrow> color"

fun Bounds :: "Image \<Rightarrow> Rectangle" where
  "Bounds (Gray16Img p) = Rect p"
| "Bounds (OtherImg r f) = r"

fun At :: "Image \<Rightarrow> int \<Rightarrow> int \<Rightarrow> panic + color" where
  "At (Gray16Img p) x y = Gray16At p x y"
| "At (OtherImg r f) x y = Inr (f x y)"

section \<open>\<open>convertToGray\<close>\<close>

text \<open>
  The inner loop \<open>for x := bounds.Min.X; x < bounds.Max.X; x++\<close> of \<open>convertToGray\<close>,
  from the current \<open>x\<close>, with its body
  \<^verbatim>\<open>
  c := color.Gray16Model.Convert(img.At(x, y))
  gray, _ := c.(color.Gray16)
  dest.Set(x, y, gray)
  \<close>
\<close>

function convertRow :: "Image \<Rightarrow> int \<Rightarrow> int \<Rightarrow> int \<Rightarrow> Gray16Image \<Rightarrow> panic + Gray16Image" where
  "convertRow img y x maxX dest =
     (if x < maxX then
        (case At img x y of
           Inl p \<Rightarrow> Inl p
         | Inr c0 \<Rightarrow>
             let c = gray16Model c0;
                 gray = fst (assertGray16 c)
             in (case Set_Gray16 dest x y (Gray16 gray) of
                   Inl p \<Rightarrow> Inl p
                 | Inr dest' \<Rightarrow> convertRow img y (x + 1) maxX dest'))
      else Inr dest)"
  by pat_completeness auto
termination
  by (relation "measure (\<lambda>(img, y, x, maxX, dest). nat (maxX - x))") auto

text \<open>The outer loop \<open>for y := bounds.Min.Y; y < bounds.Max.Y; y++\<close>, from the current \<open>y\<close>.\<close>

function convertRows :: "Image \<Rightarrow> Rectangle \<Rightarrow> int \<Rightarrow> Gray16Image \<Rightarrow> panic + Gray16Image" where
  "convertRows img bounds y dest =
     (if y < Y (Max_pt bounds) then
        (case convertRow img y (X (Min_pt bounds)) (X (Max_pt bounds)) dest of
           Inl p \<Rightarrow> Inl p
         | Inr dest' \<Rightarrow> convertRows img bounds (y + 1) dest')
      else Inr dest)"
  by pat_completeness auto
termination
  by (relation "measure (\<lambda>(img, bounds, y, dest). nat (Y (Max_pt bounds) - y))") auto

text \<open>
  \<open>convertToGray\<close>. Calling \<open>img.Bounds()\<close> on the nil interface value panics with a nil
  pointer dereference.
\<close>

definition convertToGray :: "Image option \<Rightarrow> panic + Gray16Image" where
  "convertToGray img =
     (case img of
        None \<Rightarrow> Inl NilPointerDereference
      | Some i \<Rightarrow>
          let bounds = Bounds i
          in (case NewGray16 bounds of
                Inl p \<Rightarrow> Inl p
              | Inr dest \<Rightarrow> convertRows i bounds (Y (Min_pt bounds)) dest))"

declare convertRow.simps [simp del] convertRows.simps [simp del]

section \<open>Pixel grids\<close>

text \<open>
  The layout invariant of \<open>image.Gray16\<close>: the rectangle is well-formed, a row of
  \<open>Dx\<close> samples fits in \<open>Stride\<close> bytes, and \<open>Pix\<close> holds every row of the rectangle.
\<close>

definition wfGray16 :: "Gray16Image \<Rightarrow> bool" where
  "wfGray16 p \<longleftrightarrow>
     0 \<le> Dx (Rect p) \<and> 0 \<le> Dy (Rect p) \<and> 2 * Dx (Rect p) \<le> Stride p \<and>
     (Dx (Rect p) = 0 \<or> Dy (Rect p) = 0 \<or>
      (Dy (Rect p) - 1) * Stride p + 2 * Dx (Rect p) \<le> int (length (Pix p)))"

text \<open>
  A pixel grid: a non-nil image whose bounds are a well-formed rectangle of a size that
  can be held in memory, and whose buffer, for a \<open>*image.Gray16\<close>, respects the layout
  invariant.
\<close>

fun wfImage :: "Image \<Rightarrow> bool" where
  "wfImage (Gray16Img p) \<longleftrightarrow>
     wfGray16 p \<and> Dx (Rect p) < 2 ^ 63 \<and> 2 * Dx (Rect p) * Dy (Rect p) < 2 ^ 63"
| "wfImage (OtherImg r f) \<longleftrightarrow>
     0 \<le> Dx r \<and> 0 \<le> Dy r \<and> Dx r < 2 ^ 63 \<and> 2 * Dx r * Dy r < 2 ^ 63"

text \<open>What the body of the inner loop computes for the pixel at \<open>(x, y)\<close>.\<close>

definition convertedAt :: "Image \<Rightarrow> int \<Rightarrow> int \<Rightarrow> panic + color" where
  "convertedAt img x y = (case At img x y of Inl p \<Rightarrow> Inl p | Inr c \<Rightarrow> Inr (gray16Model c))"

section \<open>Messages, events and the external collaborators\<close>

text \<open>
  \<open>linebot.Message\<close> is an interface; the type switch of \<open>handleTask\<close> tells
  \<open>*linebot.TextMessage\<close> (fields \<open>ID\<close>, \<open>Text\<close>) and \<open>*linebot.ImageMessage\<close> (fields
  \<open>ID\<close>, \<open>OriginalContentURL\<close>, \<open>PreviewImageURL\<close>) from everything else (any other
  message type, and nil).
\<close>

datatype Message =
    TextMessage string string
  | ImageMessage string string string
  | OtherMessage

fun isTextMessage :: "Message \<Rightarrow> bool" where
  "isTextMessage (TextMessage mid text) = True"
| "isTextMessage (ImageMessage mid originalContentURL previewImageURL) = False"
| "isTextMessage OtherMessage = False"

definition NewTextMessage :: "string \<Rightarrow> Message" where
  "NewTextMessage content = TextMessage [] content"

definition NewImageMessage :: "string \<Rightarrow> string \<Rightarrow> Message" where
  "NewImageMessage originalContentURL previewImageURL =
     ImageMessage [] originalContentURL previewImageURL"

record Event =
  ReplyToken :: string
  Message :: Message

record MessageContentResponse =
  ContentType :: string
  Content :: bytes

text \<open>
  Everything \<open>app.go\<close> calls outside itself and the \<open>image\<close> package, as the results
  of the calls: the decoders and the encoder of \<open>image/jpeg\<close> and \<open>image/png\<close>, base64
  and JSON, the messaging client, \<open>resize.Thumbnail\<close>, and the storage client. The
  package variable \<open>bucketName\<close> is set once by \<open>init\<close>.
\<close>

record Env =
  bucketName :: string
  base64_DecodeString :: "string \<Rightarrow> error + string"
  json_Unmarshal :: "string \<Rightarrow> error + Event"
  newLINEBot :: "error option"
  GetMessageContent :: "string \<Rightarrow> error + MessageContentResponse"
  jpeg_Decode :: "bytes \<Rightarrow> Image option \<times> error option"
  png_Decode :: "bytes \<Rightarrow> Image option \<times> error option"
  resize_Thumbnail :: "nat \<Rightarrow> nat \<Rightarrow> Image \<Rightarrow> Image"
  storage_NewClient :: "error option"
  jpeg_Encode :: "Image \<Rightarrow> error + bytes"
  Writer_Write :: "string \<Rightarrow> bytes \<Rightarrow> error option"
  Writer_Close :: "string \<Rightarrow> bytes \<Rightarrow> error option"
  ReplyMessage :: "string \<Rightarrow> Message \<Rightarrow> error option"

definition bucketURLBase :: string where
  "bucketURLBase = ''https://storage.googleapis.com/''"

text \<open>The two fixed reply texts of \<open>handleTask\<close>, as the UTF-8 bytes of the Go string literals.\<close>

definition failedText :: string where
  "failedText =
     [CHR 0xE5, CHR 0xA4, CHR 0xB1, CHR 0xE6, CHR 0x95, CHR 0x97, CHR 0xE3, CHR 0x81, CHR 0x97,
      CHR 0xE3, CHR 0x81, CHR 0xBE, CHR 0xE3, CHR 0x81, CHR 0x97, CHR 0xE3, CHR 0x81, CHR 0x9F,
      CHR 0xE3, CHR 0x80, CHR 0x82, CHR 0xE3, CHR 0x80, CHR 0x82, CHR 0xE3, CHR 0x80, CHR 0x82]"

definition unsupportedText :: string where
  "unsupportedText =
     [CHR 0xE6, CHR 0x9C, CHR 0xAA, CHR 0xE5, CHR 0xAF, CHR 0xBE, CHR 0xE5, CHR 0xBF, CHR 0x9C,
      CHR 0xE3, CHR 0x81, CHR 0xA7, CHR 0xE3, CHR 0x81, CHR 0x99,
      CHR 0xE3, CHR 0x80, CHR 0x82, CHR 0xE3, CHR 0x80, CHR 0x82, CHR 0xE3, CHR 0x80, CHR 0x82]"

section \<open>\<open>decodeImage\<close>\<close>

text \<open>
  \<open>img\<close> and \<open>err\<close> start as nil and are assigned only in the two branches.
\<close>

definition decodeImage :: "Env \<Rightarrow> MessageContentResponse \<Rightarrow> Image option \<times> error option" where
  "decodeImage env content =
     (if ContentType content = ''image/jpeg'' then jpeg_Decode env (Content content)
      else if ContentType content = ''image/png'' then png_Decode env (Content content)
      else (None, None))"

section \<open>\<open>writeImage\<close>\<close>

text \<open>
  The result is the returned error, together with what the deferred \<open>writer.Close()\<close>
  returned when it ran (\<open>None\<close> when the function returned before the \<open>defer\<close>
  statement). The deferred call runs after the return value is fixed and its own result
  is dropped.
\<close>

definition writeImage :: "Env \<Rightarrow> Image \<Rightarrow> string \<Rightarrow> error option \<times> error option option" where
  "writeImage env img path =
     (case storage_NewClient env of
        Some err \<Rightarrow> (Some err, None)
      | None \<Rightarrow>
          (case jpeg_Encode env img of
             Inl err \<Rightarrow> (Some err, None)
           | Inr b \<Rightarrow>
               let closed = Some (Writer_Close env path b)
               in (case Writer_Write env path b of
                     Some err \<Rightarrow> (Some err, closed)
                   | None \<Rightarrow> (None, closed))))"

section \<open>\<open>handleTask\<close>\<close>

text \<open>
  What a run of \<open>handleTask\<close> does towards the user: it returns before building a reply
  (\<open>Dropped\<close>), it panics (\<open>Panicked\<close>), or it calls \<open>ReplyMessage\<close> with a message, which
  either fails (\<open>ReplyFailed\<close>) or succeeds, followed by \<open>w.WriteHeader(200)\<close> (\<open>Replied\<close>).
\<close>

datatype Outcome =
    Dropped
  | Panicked panic
  | ReplyFailed Message
  | Replied Message

fun replyOf :: "Outcome \<Rightarrow> Message option" where
  "replyOf Dropped = None"
| "replyOf (Panicked p) = None"
| "replyOf (ReplyFailed m) = Some m"
| "replyOf (Replied m) = Some m"

text \<open>The tail of \<open>handleTask\<close> after the type switch.\<close>

definition sendReply :: "Env \<Rightarrow> Event \<Rightarrow> Message \<Rightarrow> Outcome" where
  "sendReply env e responseMessage =
     (case ReplyMessage env (ReplyToken e) responseMessage of
        Some err \<Rightarrow> ReplyFailed responseMessage
      | None \<Rightarrow> Replied responseMessage)"

definition handleTask :: "Env \<Rightarrow> string \<Rightarrow> Outcome" where
  "handleTask env data =
     (if data = [] then Dropped
      else case base64_DecodeString env data of
        Inl err \<Rightarrow> Dropped
      | Inr j \<Rightarrow>
      (case json_Unmarshal env j of
        Inl err \<Rightarrow> Dropped
      | Inr e \<Rightarrow>
      (case newLINEBot env of
        Some err \<Rightarrow> Dropped
      | None \<Rightarrow>
      (case Message e of
        TextMessage mid text \<Rightarrow> sendReply env e (NewTextMessage text)
      | ImageMessage mid originalContentURL previewImageURL \<Rightarrow>
          (case GetMessageContent env mid of
             Inl err \<Rightarrow> Dropped
           | Inr content \<Rightarrow>
          (case decodeImage env content of
             (img, Some err2) \<Rightarrow> Dropped
           | (img, None) \<Rightarrow>
          (case convertToGray img of
             Inl p \<Rightarrow> Panicked p
           | Inr gray \<Rightarrow>
               let img' = Gray16Img gray;
                   thumbnail = resize_Thumbnail env 300 300 img';
                   origPath = ''images/'' @ mid @ ''.jpg'';
                   thumbnailPath = ''thumbnails/'' @ mid @ ''.jpg'';
                   writeError1 = fst (writeImage env img' origPath);
                   writeError2 = fst (writeImage env thumbnail thumbnailPath)
               in if writeError1 = None \<and> writeError2 = None then
                    let origURL = bucketURLBase @ bucketName env @ ''/'' @ origPath;
                        thumbnailURL = bucketURLBase @ bucketName env @ ''/'' @ thumbnailPath
                    in sendReply env e (NewImageMessage origURL thumbnailURL)
                  else sendReply env e (NewTextMessage failedText))))
      | OtherMessage \<Rightarrow> sendReply env e (NewTextMessage unsupportedText)))))"

section \<open>\<open>handleCallback\<close>\<close>

text \<open>
  \<open>taskqueue.NewPOSTTask(path, params)\<close>: a task with its path and form values.
\<close>

record Task =
  Path :: string
  Params :: "(string \<times> string list) list"

definition NewPOSTTask :: "string \<Rightarrow> (string \<times> string list) list \<Rightarrow> Task" where
  "NewPOSTTask path params = \<lparr>Path = path, Params = params\<rparr>"

text \<open>
  The loop \<open>for i, e := range evs\<close> from index \<open>i\<close>, over the events left; \<open>ts\<close> is the
  slice made with \<open>len(evs)\<close> nil entries. \<open>Inl\<close> is the early \<open>return\<close> on a marshalling
  error.
\<close>

fun marshalEvents ::
  "(Event \<Rightarrow> error + string) \<Rightarrow> (string \<Rightarrow> string) \<Rightarrow> nat \<Rightarrow> Event list \<Rightarrow> Task option list
     \<Rightarrow> error + Task option list" where
  "marshalEvents json_Marshal base64_EncodeToString i [] ts = Inr ts"
| "marshalEvents json_Marshal base64_EncodeToString i (e # es) ts =
     (case json_Marshal e of
        Inl err \<Rightarrow> Inl err
      | Inr j \<Rightarrow>
          let data = base64_EncodeToString j;
              t = NewPOSTTask ''/task'' [(''data'', [data])]
          in marshalEvents json_Marshal base64_EncodeToString (i + 1) es (ts[i := Some t]))"

text \<open>
  \<open>handleCallback\<close>: the batch handed to \<open>taskqueue.AddMulti\<close>, or \<open>None\<close> when the
  handler returned without calling it.
\<close>

definition handleCallback ::
  "(Event \<Rightarrow> error + string) \<Rightarrow> (string \<Rightarrow> string) \<Rightarrow> Event list \<Rightarrow> Task option list option" where
  "handleCallback json_Marshal base64_EncodeToString evs =
     (case marshalEvents json_Marshal base64_EncodeToString 0 evs (replicate (length evs) None) of
        Inl err \<Rightarrow> None
      | Inr ts \<Rightarrow> Some ts)"

section \<open>Thumbnail dimensions\<close>

text \<open>
  Modelled from the spec: \<open>resize.Thumbnail\<close> (package \<open>github.com/nfnt/resize\<close>), called
  by \<open>handleTask\<close> with the box 300x300, is not part of the sources. The spec has it
  produce a grid resampled to fit within the box while preserving the aspect ratio, the
  box being an upper bound and not a forced target. The dimensions are computed in
  unsigned integer arithmetic: a grid already within the box keeps its size; otherwise
  the width is cut to the box and the height scaled by the same factor, then the height
  is cut to the box and the width scaled, each scaled side rounded down but at least one
  pixel. The resampled pixel values (a Lanczos filter in floating point) are not
  modelled.
\<close>

definition thumbnailSize :: "nat \<Rightarrow> nat \<Rightarrow> nat \<Rightarrow> nat \<Rightarrow> nat \<times> nat" where
  "thumbnailSize maxWidth maxHeight origWidth origHeight =
     (if origWidth \<le> maxWidth \<and> origHeight \<le> maxHeight then (origWidth, origHeight)
      else
        let (newWidth, newHeight) =
              (if maxWidth < origWidth
               then (maxWidth, max 1 (origHeight * maxWidth div origWidth))
               else (origWidth, origHeight))
        in if maxHeight < newHeight
           then (max 1 (newWidth * maxHeight div newHeight), maxHeight)
           else (newWidth, newHeight))"

section \<open>Sample inputs\<close>

text \<open>Concrete values on which the theorems below are exercised.\<close>

text \<open>A 2x1 image: a pure red pixel of some non-gray type and a \<open>Gray16\<close> pixel.\<close>

definition sampleImage :: Image where
  "sampleImage =
     OtherImg \<lparr>Min_pt = \<lparr>X = 0, Y = 0\<rparr>, Max_pt = \<lparr>X = 2, Y = 1\<rparr>\<rparr>
       (\<lambda>x y. if x = 0 then RGBAColor 0xFFFF 0 0 0xFFFF else Gray16 0x1234)"

definition sampleGray :: Gray16Image where
  "sampleGray =
     \<lparr>Pix = [0x4C, 0x8B, 0x12, 0x34], Stride = 4,
      Rect = \<lparr>Min_pt = \<lparr>X = 0, Y = 0\<rparr>, Max_pt = \<lparr>X = 2, Y = 1\<rparr>\<rparr>\<rparr>"

text \<open>
  An environment in which every collaborator succeeds: the task payload decodes to the
  event \<open>e\<close>, the content is a PNG that decodes to \<open>sampleImage\<close>.
\<close>

definition sampleEnv :: "Event \<Rightarrow> Env" where
  "sampleEnv e =
     \<lparr>bucketName = ''bucket'',
      base64_DecodeString = (\<lambda>s. Inr s),
      json_Unmarshal = (\<lambda>j. Inr e),
      newLINEBot = None,
      GetMessageContent = (\<lambda>mid. Inr \<lparr>ContentType = ''image/png'', Content = []\<rparr>),
      jpeg_Decode = (\<lambda>b. (None, Some (Error ''invalid JPEG format''))),
      png_Decode = (\<lambda>b. (Some sampleImage, None)),
      resize_Thumbnail = (\<lambda>maxWidth maxHeight img. img),
      storage_NewClient = None,
      jpeg_Encode = (\<lambda>img. Inr []),
      Writer_Write = (\<lambda>path b. None),
      Writer_Close = (\<lambda>path b. None),
      ReplyMessage = (\<lambda>token m. None)\<rparr>"

definition textEvent :: Event where
  "textEvent = \<lparr>ReplyToken = ''token'', Message = TextMessage ''1'' ''hello''\<rparr>"

definition imageEvent :: Event where
  "imageEvent = \<lparr>ReplyToken = ''token'', Message = ImageMessage ''42'' [] []\<rparr>"

definition otherEvent :: Event where
  "otherEvent = \<lparr>ReplyToken = ''token'', Message = OtherMessage\<rparr>"

definition failingWrite :: "string \<Rightarrow> Env \<Rightarrow> Env" where
  "failingWrite p env =
     env\<lparr>Writer_Write := (\<lambda>path b. if path = p then Some (Error ''write failed'') else None)\<rparr>"

section \<open>The type assertion in \<open>convertToGray\<close>\<close>

text \<open>
  Claim C9. In \<open>convertToGray\<close> the type assertion of the converted colour to
  \<open>color.Gray16\<close> succeeds for every pixel of every image: \<open>Gray16Model.Convert\<close> returns
  a \<open>Gray16\<close> for every colour, so the assertion yields that value with \<open>ok = true\<close>,
  and the branch that would write the zero pixel is never taken.
\<close>

theorem gray16_assertion_always_succeeds:
  "snd (assertGray16 (gray16Model c)) \<and>
   gray16Model c = Gray16 (fst (assertGray16 (gray16Model c)))"
  by (cases c) simp_all

section \<open>Unsupported content types\<close>

text \<open>
  Claim C5. For every fetched content whose declared content type is neither exactly
  \<open>image/jpeg\<close> nor exactly \<open>image/png\<close>, \<open>decodeImage\<close> returns the nil image and the
  nil error.
\<close>

theorem decodeImage_unsupported_type:
  "ContentType content \<noteq> ''image/jpeg'' \<Longrightarrow> ContentType content \<noteq> ''image/png'' \<Longrightarrow>
   decodeImage env content = (None, None)"
  by (simp add: decodeImage_def)

theorem decodeImage_unsupported_type_witness:
  "ContentType \<lparr>ContentType = ''image/gif'', Content = []\<rparr> \<noteq> ''image/jpeg'' \<and>
   ContentType \<lparr>ContentType = ''image/gif'', Content = []\<rparr> \<noteq> ''image/png'' \<and>
   decodeImage (sampleEnv imageEvent) \<lparr>ContentType = ''image/gif'', Content = []\<rparr> = (None, None)"
  using decodeImage_unsupported_type
    [of "\<lparr>ContentType = ''image/gif'', Content = []\<rparr>" "sampleEnv imageEvent"]
  by simp

section \<open>The dropped result of \<open>writer.Close\<close>\<close>

text \<open>
  Claim C8. \<open>writeImage\<close> can return nil although closing the upload stream fails: the
  returned error never depends on what the deferred \<open>writer.Close\<close> returns, and when
  the client, the encoder and \<open>Write\<close> succeed the result is nil whatever \<open>Close\<close>
  returned.
\<close>

theorem writeImage_ignores_Close:
  "fst (writeImage (env\<lparr>Writer_Close := cl\<rparr>) img path) = fst (writeImage env img path) \<and>
   (storage_NewClient env = None \<and> jpeg_Encode env img = Inr b \<and> Writer_Write env path b = None
      \<longrightarrow> writeImage env img path = (None, Some (Writer_Close env path b)))"
  by (simp add: writeImage_def Let_def split: option.splits sum.splits)

theorem writeImage_ignores_Close_witness:
  "storage_NewClient (sampleEnv imageEvent\<lparr>Writer_Close := (\<lambda>path b. Some (Error ''close failed''))\<rparr>) = None \<and>
   writeImage (sampleEnv imageEvent\<lparr>Writer_Close := (\<lambda>path b. Some (Error ''close failed''))\<rparr>)
       sampleImage ''images/42.jpg''
     = (None, Some (Some (Error ''close failed'')))"
  using writeImage_ignores_Close
    [where env = "sampleEnv imageEvent\<lparr>Writer_Close := (\<lambda>path b. Some (Error ''close failed''))\<rparr>"
       and cl = "\<lambda>path b. Some (Error ''close failed'')" and img = sampleImage
       and path = "''images/42.jpg''" and b = "[]"]
  by (simp add: sampleEnv_def)

section \<open>\<open>handleCallback\<close>: a marshalling error stops the whole batch\<close>

lemma marshalEvents_error:
  "e \<in> set evs \<Longrightarrow> jm e = Inl err \<Longrightarrow> \<exists>err'. marshalEvents jm b64 i evs ts = Inl err'"
proof (induction evs arbitrary: i ts)
  case Nil
  then show ?case by simp
next
  case (Cons a evs)
  show ?case
  proof (cases "jm a")
    case (Inl x)
    then show ?thesis by simp
  next
    case (Inr j)
    with Cons.prems have "e \<in> set evs" by auto
    from Cons.IH [OF this Cons.prems(2)] Inr show ?thesis by (simp add: Let_def)
  qed
qed

text \<open>
  When every event marshals, the loop fills one task per event, in order, and the batch
  is handed over whole.
\<close>

lemma marshalEvents_ok:
  "\<forall>e\<in>set evs. \<exists>j. jm e = Inr j \<Longrightarrow> i + length evs \<le> length ts \<Longrightarrow>
   \<exists>ts'. marshalEvents jm b64 i evs ts = Inr ts' \<and> length ts' = length ts \<and>
     (\<forall>k<length evs. \<exists>j. jm (evs ! k) = Inr j \<and>
        ts' ! (i + k) = Some (NewPOSTTask ''/task'' [(''data'', [b64 j])])) \<and>
     (\<forall>k<i. ts' ! k = ts ! k)"
proof (induction evs arbitrary: i ts)
  case Nil
  then show ?case by simp
next
  case (Cons a evs)
  then obtain j where j: "jm a = Inr j" by auto
  let ?t = "NewPOSTTask ''/task'' [(''data'', [b64 j])]"
  let ?ts = "ts[i := Some ?t]"
  have "\<forall>e\<in>set evs. \<exists>j. jm e = Inr j" using Cons.prems by auto
  moreover have "Suc i + length evs \<le> length ?ts" using Cons.prems by simp
  ultimately obtain ts' where ts': "marshalEvents jm b64 (Suc i) evs ?ts = Inr ts'"
    "length ts' = length ?ts"
    "\<forall>k<length evs. \<exists>j. jm (evs ! k) = Inr j \<and>
       ts' ! (Suc i + k) = Some (NewPOSTTask ''/task'' [(''data'', [b64 j])])"
    "\<forall>k<Suc i. ts' ! k = ?ts ! k"
    using Cons.IH [of "Suc i" ?ts] by blast
  have "marshalEvents jm b64 i (a # evs) ts = Inr ts'" using j ts'(1) by (simp add: Let_def)
  moreover have "length ts' = length ts" using ts'(2) by simp
  moreover have "\<forall>k<length (a # evs). \<exists>j. jm ((a # evs) ! k) = Inr j \<and>
      ts' ! (i + k) = Some (NewPOSTTask ''/task'' [(''data'', [b64 j])])"
  proof (intro allI impI)
    fix k assume k: "k < length (a # evs)"
    show "\<exists>j. jm ((a # evs) ! k) = Inr j \<and>
      ts' ! (i + k) = Some (NewPOSTTask ''/task'' [(''data'', [b64 j])])"
    proof (cases k)
      case 0
      have "ts' ! i = ?ts ! i" using ts'(4) by simp
      also have "\<dots> = Some ?t" using Cons.prems(2) by simp
      finally show ?thesis using 0 j by simp
    next
      case (Suc k')
      then have "k' < length evs" using k by simp
      with ts'(3) Suc show ?thesis by simp
    qed
  qed
  moreover have "\<forall>k<i. ts' ! k = ts ! k" using ts'(4) by simp
  ultimately show ?case by blast
qed

text \<open>
  Claim C10. In \<open>handleCallback\<close>, if JSON marshalling fails for any event of the inbound
  batch, the handler returns without calling \<open>taskqueue.AddMulti\<close>: no task is enqueued
  for any event of the batch, the ones marshalled before the failing one included.
\<close>

theorem handleCallback_marshal_error_enqueues_nothing:
  "e \<in> set evs \<Longrightarrow> json_Marshal e = Inl err \<Longrightarrow>
   handleCallback json_Marshal base64_EncodeToString evs = None"
  using marshalEvents_error
    [of e evs json_Marshal err base64_EncodeToString 0 "replicate (length evs) None"]
  by (auto simp: handleCallback_def)

theorem handleCallback_marshal_error_enqueues_nothing_witness:
  "imageEvent \<in> set [textEvent, imageEvent, otherEvent] \<and>
   (\<lambda>e. if e = imageEvent then Inl (Error ''unsupported type'') else Inr ''{}'') imageEvent
     = Inl (Error ''unsupported type'') \<and>
   (\<lambda>e. if e = imageEvent then Inl (Error ''unsupported type'') else Inr ''{}'') textEvent
     = Inr ''{}'' \<and>
   handleCallback (\<lambda>e. if e = imageEvent then Inl (Error ''unsupported type'') else Inr ''{}'')
     (\<lambda>j. j) [textEvent, imageEvent, otherEvent] = None"
  using handleCallback_marshal_error_enqueues_nothing
    [of imageEvent "[textEvent, imageEvent, otherEvent]"
        "\<lambda>e. if e = imageEvent then Inl (Error ''unsupported type'') else Inr ''{}''"
        "Error ''unsupported type''" "\<lambda>j. j"]
  by (simp add: textEvent_def imageEvent_def)

section \<open>\<open>handleTask\<close>: text and unsupported messages\<close>

text \<open>
  Claim C7. For every inbound text message the reply is a text message whose content is
  the inbound text verbatim; for every inbound message of a type other than text or
  image the reply is the fixed unsupported-type text. (The task payload is taken to have
  been parsed and the client built: before that the handler returns without a reply.)
\<close>

theorem handleTask_text_and_other:
  assumes "data \<noteq> []" "base64_DecodeString env data = Inr j" "json_Unmarshal env j = Inr e"
    "newLINEBot env = None"
  shows "(Message e = TextMessage mid text \<longrightarrow>
            replyOf (handleTask env data) = Some (TextMessage [] text)) \<and>
         (Message e = OtherMessage \<longrightarrow>
            replyOf (handleTask env data) = Some (TextMessage [] unsupportedText))"
  using assms
  by (auto simp: handleTask_def sendReply_def NewTextMessage_def split: option.splits)

theorem handleTask_text_and_other_witness:
  "replyOf (handleTask (sampleEnv textEvent) ''data'') = Some (TextMessage [] ''hello'') \<and>
   replyOf (handleTask (sampleEnv otherEvent) ''data'') = Some (TextMessage [] unsupportedText)"
  using handleTask_text_and_other
      [of "''data''" "sampleEnv textEvent" "''data''" textEvent "''1''" "''hello''"]
    handleTask_text_and_other
      [of "''data''" "sampleEnv otherEvent" "''data''" otherEvent]
  by (simp add: sampleEnv_def textEvent_def otherEvent_def)

section \<open>Runs on the sample inputs\<close>

lemma sample_convert: "convertToGray (Some sampleImage) = Inr sampleGray"
  by code_simp

lemma sample_decode:
  "decodeImage (sampleEnv imageEvent) \<lparr>ContentType = ''image/png'', Content = []\<rparr>
     = (Some sampleImage, None)"
  by (simp add: decodeImage_def sampleEnv_def)

lemma sample_decode_failing:
  "decodeImage (failingWrite p (sampleEnv imageEvent)) \<lparr>ContentType = ''image/png'', Content = []\<rparr>
     = (Some sampleImage, None)"
  by (simp add: decodeImage_def sampleEnv_def failingWrite_def)

lemma sample_failing_reply:
  "replyOf (handleTask (failingWrite ''thumbnails/42.jpg'' (sampleEnv imageEvent)) ''data'') =
     Some (TextMessage [] failedText)"
  by (simp add: handleTask_def sendReply_def NewTextMessage_def Let_def decodeImage_def
      sample_convert writeImage_def sampleEnv_def imageEvent_def failingWrite_def)

section \<open>\<open>handleTask\<close>: the reply after the uploads\<close>

text \<open>
  Claim C1. For every image event whose pipeline reaches the upload stage (the payload
  parsed, the client built, the content fetched, decoded and converted): if both
  \<open>writeImage\<close> calls return nil, the reply is an image message whose two URLs are
  exactly \<open>https://storage.googleapis.com/\<close> followed by the bucket name and
  \<open>/images/<id>.jpg\<close>, respectively \<open>/thumbnails/<id>.jpg\<close>; if either returns an error,
  the reply is the fixed failure text, whichever upload failed.
\<close>

theorem handleTask_upload_reply:
  assumes "data \<noteq> []" "base64_DecodeString env data = Inr j" "json_Unmarshal env j = Inr e"
    "newLINEBot env = None"
    "Message e = ImageMessage mid originalContentURL previewImageURL"
    "GetMessageContent env mid = Inr content"
    "decodeImage env content = (img, None)"
    "convertToGray img = Inr gray"
  shows "replyOf (handleTask env data) =
     Some (if fst (writeImage env (Gray16Img gray) (''images/'' @ mid @ ''.jpg'')) = None \<and>
              fst (writeImage env (resize_Thumbnail env 300 300 (Gray16Img gray))
                     (''thumbnails/'' @ mid @ ''.jpg'')) = None
           then ImageMessage []
                  (''https://storage.googleapis.com/'' @ bucketName env @ ''/images/'' @ mid @ ''.jpg'')
                  (''https://storage.googleapis.com/'' @ bucketName env @ ''/thumbnails/'' @ mid @ ''.jpg'')
           else TextMessage [] failedText)"
  using assms
  by (simp add: handleTask_def sendReply_def NewTextMessage_def NewImageMessage_def Let_def
      bucketURLBase_def split: option.splits)

theorem handleTask_upload_reply_witness:
  "replyOf (handleTask (sampleEnv imageEvent) ''data'') =
     Some (ImageMessage [] ''https://storage.googleapis.com/bucket/images/42.jpg''
             ''https://storage.googleapis.com/bucket/thumbnails/42.jpg'') \<and>
   replyOf (handleTask (failingWrite ''images/42.jpg'' (sampleEnv imageEvent)) ''data'') =
     Some (TextMessage [] failedText) \<and>
   replyOf (handleTask (failingWrite ''thumbnails/42.jpg'' (sampleEnv imageEvent)) ''data'') =
     Some (TextMessage [] failedText)"
proof -
  have 1: "replyOf (handleTask (sampleEnv imageEvent) ''data'') =
     Some (ImageMessage [] ''https://storage.googleapis.com/bucket/images/42.jpg''
             ''https://storage.googleapis.com/bucket/thumbnails/42.jpg'')"
    using handleTask_upload_reply [where data = "''data''" and env = "sampleEnv imageEvent"
        and j = "''data''" and e = imageEvent and mid = "''42''" and originalContentURL = "[]"
        and previewImageURL = "[]" and content = "\<lparr>ContentType = ''image/png'', Content = []\<rparr>"
        and img = "Some sampleImage" and gray = sampleGray,
        OF _ _ _ _ _ _ sample_decode sample_convert]
    by (simp add: sampleEnv_def imageEvent_def writeImage_def)
  have 2: "replyOf (handleTask (failingWrite p (sampleEnv imageEvent)) ''data'') =
     Some (TextMessage [] failedText)" if "p = ''images/42.jpg'' \<or> p = ''thumbnails/42.jpg''" for p
    using that handleTask_upload_reply [where data = "''data''"
        and env = "failingWrite p (sampleEnv imageEvent)"
        and j = "''data''" and e = imageEvent and mid = "''42''" and originalContentURL = "[]"
        and previewImageURL = "[]" and content = "\<lparr>ContentType = ''image/png'', Content = []\<rparr>"
        and img = "Some sampleImage" and gray = sampleGray,
        OF _ _ _ _ _ _ sample_decode_failing sample_convert]
    by (auto simp add: sampleEnv_def imageEvent_def writeImage_def failingWrite_def)
  from 1 2 show ?thesis by simp
qed

section \<open>\<open>handleTask\<close>: which failures are answered\<close>

text \<open>
  Claim C6. For every processed event, the fixed failure text is sent as the failure
  reply only when the content was fetched, \<open>decodeImage\<close> returned an image without
  error, and one of the two uploads failed (a text message is left aside: its reply is
  the echo of whatever the user wrote). Every earlier failure of the image pipeline, a
  content fetch error or a decode error, makes the handler return before any reply is
  sent.
\<close>

theorem handleTask_failure_reply_only_after_decode:
  assumes "base64_DecodeString env data = Inr j" "json_Unmarshal env j = Inr e"
  shows "(\<not> isTextMessage (Message e) \<and>
          replyOf (handleTask env data) = Some (TextMessage [] failedText) \<longrightarrow>
            (\<exists>mid u p content img gray.
               Message e = ImageMessage mid u p \<and> GetMessageContent env mid = Inr content \<and>
               decodeImage env content = (Some img, None) \<and>
               convertToGray (Some img) = Inr gray \<and>
               (fst (writeImage env (Gray16Img gray) (''images/'' @ mid @ ''.jpg'')) \<noteq> None \<or>
                fst (writeImage env (resize_Thumbnail env 300 300 (Gray16Img gray))
                       (''thumbnails/'' @ mid @ ''.jpg'')) \<noteq> None))) \<and>
         (Message e = ImageMessage mid u p \<and> GetMessageContent env mid = Inl err \<longrightarrow>
            handleTask env data = Dropped) \<and>
         (Message e = ImageMessage mid u p \<and> GetMessageContent env mid = Inr content \<and>
          decodeImage env content = (img, Some err2) \<longrightarrow>
            handleTask env data = Dropped)"
proof (intro conjI impI)
  assume a: "\<not> isTextMessage (Message e) \<and>
          replyOf (handleTask env data) = Some (TextMessage [] failedText)"
  show "\<exists>mid u p content img gray.
               Message e = ImageMessage mid u p \<and> GetMessageContent env mid = Inr content \<and>
               decodeImage env content = (Some img, None) \<and>
               convertToGray (Some img) = Inr gray \<and>
               (fst (writeImage env (Gray16Img gray) (''images/'' @ mid @ ''.jpg'')) \<noteq> None \<or>
                fst (writeImage env (resize_Thumbnail env 300 300 (Gray16Img gray))
                       (''thumbnails/'' @ mid @ ''.jpg'')) \<noteq> None)"
  proof (cases "Message e")
    case (TextMessage x11 x12)
    with a show ?thesis by simp
  next
    case (ImageMessage mid u p)
    have reply: "replyOf (handleTask env data) = Some (TextMessage [] failedText)"
      using a by simp
    have pre: "data \<noteq> []" "newLINEBot env = None"
      using reply assms ImageMessage by (auto simp: handleTask_def split: if_splits option.splits)
    obtain content where content: "GetMessageContent env mid = Inr content"
      using reply assms ImageMessage pre
      by (cases "GetMessageContent env mid") (auto simp: handleTask_def)
    obtain img err2 where dec: "decodeImage env content = (img, err2)"
      by (cases "decodeImage env content")
    have err2: "err2 = None"
      using reply assms ImageMessage pre content dec by (cases err2) (auto simp: handleTask_def)
    obtain gray where gray: "convertToGray img = Inr gray"
      using reply assms ImageMessage pre content dec err2
      by (cases "convertToGray img") (auto simp: handleTask_def)
    obtain i where i: "img = Some i"
      using gray by (cases img) (auto simp: convertToGray_def)
    have "fst (writeImage env (Gray16Img gray) (''images/'' @ mid @ ''.jpg'')) \<noteq> None \<or>
          fst (writeImage env (resize_Thumbnail env 300 300 (Gray16Img gray))
                 (''thumbnails/'' @ mid @ ''.jpg'')) \<noteq> None"
      using reply assms ImageMessage pre content dec err2 gray
      by (auto simp: handleTask_def sendReply_def NewImageMessage_def Let_def
          split: if_splits option.splits)
    with ImageMessage content dec err2 gray i show ?thesis by blast
  next
    case OtherMessage
    with a assms show ?thesis
      by (auto simp: handleTask_def sendReply_def NewTextMessage_def failedText_def
          unsupportedText_def split: option.splits sum.splits if_splits)
  qed
next
  assume "Message e = ImageMessage mid u p \<and> GetMessageContent env mid = Inl err"
  with assms show "handleTask env data = Dropped"
    by (simp add: handleTask_def split: option.splits)
next
  assume "Message e = ImageMessage mid u p \<and> GetMessageContent env mid = Inr content \<and>
          decodeImage env content = (img, Some err2)"
  with assms show "handleTask env data = Dropped"
    by (simp add: handleTask_def split: option.splits)
qed

theorem handleTask_failure_reply_only_after_decode_witness:
  "(\<not> isTextMessage (Message imageEvent) \<and>
    replyOf (handleTask (failingWrite ''thumbnails/42.jpg'' (sampleEnv imageEvent)) ''data'') =
      Some (TextMessage [] failedText)) \<and>
   (\<exists>content img gray.
      GetMessageContent (failingWrite ''thumbnails/42.jpg'' (sampleEnv imageEvent)) ''42''
        = Inr content \<and>
      decodeImage (failingWrite ''thumbnails/42.jpg'' (sampleEnv imageEvent)) content
        = (Some img, None) \<and>
      convertToGray (Some img) = Inr gray) \<and>
   handleTask (sampleEnv imageEvent\<lparr>GetMessageContent := (\<lambda>mid. Inl (Error ''not found''))\<rparr>) ''data''
     = Dropped \<and>
   handleTask (sampleEnv imageEvent
       \<lparr>GetMessageContent := (\<lambda>mid. Inr \<lparr>ContentType = ''image/jpeg'', Content = []\<rparr>)\<rparr>) ''data''
     = Dropped"
proof -
  let ?env1 = "failingWrite ''thumbnails/42.jpg'' (sampleEnv imageEvent)"
  let ?env2 = "sampleEnv imageEvent\<lparr>GetMessageContent := (\<lambda>mid. Inl (Error ''not found''))\<rparr>"
  let ?env3 = "sampleEnv imageEvent
       \<lparr>GetMessageContent := (\<lambda>mid. Inr \<lparr>ContentType = ''image/jpeg'', Content = []\<rparr>)\<rparr>"
  have a: "\<not> isTextMessage (Message imageEvent)" by (simp add: imageEvent_def)
  have 1: "\<exists>content img gray.
      GetMessageContent ?env1 ''42'' = Inr content \<and>
      decodeImage ?env1 content = (Some img, None) \<and> convertToGray (Some img) = Inr gray"
  proof -
    have b: "base64_DecodeString ?env1 ''data'' = Inr ''data''"
      and u: "json_Unmarshal ?env1 ''data'' = Inr imageEvent"
      by (simp_all add: sampleEnv_def failingWrite_def)
    from handleTask_failure_reply_only_after_decode [OF b u] a sample_failing_reply
    obtain mid u p content img gray where
      "Message imageEvent = ImageMessage mid u p" "GetMessageContent ?env1 mid = Inr content"
      "decodeImage ?env1 content = (Some img, None)" "convertToGray (Some img) = Inr gray"
      by blast
    moreover from this(1) have "mid = ''42''" by (simp add: imageEvent_def)
    ultimately show ?thesis by blast
  qed
  have 2: "handleTask ?env2 ''data'' = Dropped"
    using handleTask_failure_reply_only_after_decode
      [where env = ?env2 and data = "''data''" and j = "''data''" and e = imageEvent
        and mid = "''42''" and u = "[]" and p = "[]" and err = "Error ''not found''"]
    by (simp add: sampleEnv_def imageEvent_def)
  have 3: "handleTask ?env3 ''data'' = Dropped"
    using handleTask_failure_reply_only_after_decode
      [where env = ?env3 and data = "''data''" and j = "''data''" and e = imageEvent
        and mid = "''42''" and u = "[]" and p = "[]"
        and content = "\<lparr>ContentType = ''image/jpeg'', Content = []\<rparr>"
        and img = None and ?err2.0 = "Error ''invalid JPEG format''"]
    by (simp add: sampleEnv_def imageEvent_def decodeImage_def)
  from a sample_failing_reply 1 2 3 show ?thesis by blast
qed

text \<open>
  What the nil result of \<open>decodeImage\<close> leads to: with an unsupported content type the
  nil image passes the error check and \<open>convertToGray\<close> dereferences it, so the handler
  panics and no reply is sent.
\<close>

lemma handleTask_unsupported_content_type_panics:
  assumes "data \<noteq> []" "base64_DecodeString env data = Inr j" "json_Unmarshal env j = Inr e"
    "newLINEBot env = None"
    "Message e = ImageMessage mid originalContentURL previewImageURL"
    "GetMessageContent env mid = Inr content"
    "ContentType content \<noteq> ''image/jpeg''" "ContentType content \<noteq> ''image/png''"
  shows "handleTask env data = Panicked NilPointerDereference"
  using assms by (simp add: handleTask_def decodeImage_def convertToGray_def)

section \<open>Bytes and samples\<close>

lemma join_split16:
  "push_bit 8 (ucast (ucast (drop_bit 8 c) :: 8 word) :: 16 word) OR ucast (ucast c :: 8 word)
     = (c :: 16 word)"
proof (rule bit_word_eqI)
  fix n assume "n < LENGTH(16)"
  then show "bit (push_bit 8 (ucast (ucast (drop_bit 8 c) :: 8 word) :: 16 word)
                    OR ucast (ucast c :: 8 word)) n = bit c n"
    by (cases "n < 8") (auto simp: bit_simps)
qed

lemma hi_of_join:
  "(ucast (drop_bit 8 (push_bit 8 (ucast (a :: 8 word) :: 16 word) OR ucast (b :: 8 word)))
      :: 8 word) = a"
proof (rule bit_word_eqI)
  fix n assume "n < LENGTH(8)"
  then show "bit (ucast (drop_bit 8 (push_bit 8 (ucast a :: 16 word) OR ucast b)) :: 8 word) n
               = bit a n"
    by (auto simp: bit_simps dest: bit_imp_le_length)
qed

lemma lo_of_join:
  "(ucast (push_bit 8 (ucast (a :: 8 word) :: 16 word) OR ucast (b :: 8 word)) :: 8 word) = b"
proof (rule bit_word_eqI)
  fix n assume "n < LENGTH(8)"
  then show "bit (ucast (push_bit 8 (ucast a :: 16 word) OR ucast b) :: 8 word) n = bit b n"
    by (auto simp: bit_simps)
qed

lemma gray16Model_is_Gray16: "gray16Model c = Gray16 (fst (assertGray16 (gray16Model c)))"
  by (cases c) simp_all

section \<open>Pixel offsets\<close>

lemma PixOffset_in_range:
  assumes wf: "wfGray16 p" and inr: "In x y (Rect p)"
  shows "0 \<le> PixOffset p x y" and "PixOffset p x y + 1 < int (length (Pix p))"
proof -
  let ?dx = "x - X (Min_pt (Rect p))" and ?dy = "y - Y (Min_pt (Rect p))"
  have dx: "0 \<le> ?dx" "?dx \<le> Dx (Rect p) - 1" and dy: "0 \<le> ?dy" "?dy \<le> Dy (Rect p) - 1"
    using inr by (auto simp: In_def Dx_def Dy_def)
  have S: "0 \<le> Stride p" "2 * Dx (Rect p) \<le> Stride p" using wf dx by (auto simp: wfGray16_def)
  have len: "(Dy (Rect p) - 1) * Stride p + 2 * Dx (Rect p) \<le> int (length (Pix p))"
    using wf dx dy by (auto simp: wfGray16_def)
  have "0 \<le> ?dy * Stride p" using dy S by simp
  then show "0 \<le> PixOffset p x y" using dx by (simp add: PixOffset_def)
  have "?dy * Stride p \<le> (Dy (Rect p) - 1) * Stride p"
    using dy S by (intro mult_right_mono) auto
  then show "PixOffset p x y + 1 < int (length (Pix p))"
    using dx len by (simp add: PixOffset_def)
qed

lemma PixOffset_apart:
  assumes wf: "wfGray16 p" and i1: "In x y (Rect p)" and i2: "In x' y' (Rect p)"
    and ne: "x \<noteq> x' \<or> y \<noteq> y'"
  shows "PixOffset p x y + 2 \<le> PixOffset p x' y' \<or> PixOffset p x' y' + 2 \<le> PixOffset p x y"
proof -
  let ?mx = "X (Min_pt (Rect p))" and ?my = "Y (Min_pt (Rect p))"
  have S: "0 \<le> Stride p" "2 * Dx (Rect p) \<le> Stride p"
    using wf i1 by (auto simp: wfGray16_def In_def Dx_def)
  have b: "0 \<le> x - ?mx" "x - ?mx \<le> Dx (Rect p) - 1" "0 \<le> x' - ?mx" "x' - ?mx \<le> Dx (Rect p) - 1"
    using i1 i2 by (auto simp: In_def Dx_def)
  have step: "(v - ?my) * Stride p + Stride p \<le> (v' - ?my) * Stride p" if "v < v'" for v v'
  proof -
    have "(v - ?my + 1) * Stride p \<le> (v' - ?my) * Stride p"
      using that S by (intro mult_right_mono) auto
    then show ?thesis by (simp add: algebra_simps)
  qed
  consider "y = y'" | "y < y'" | "y' < y" by linarith
  then show ?thesis
  proof cases
    case 1
    with ne show ?thesis by (auto simp: PixOffset_def)
  next
    case 2
    from step [OF this] b S show ?thesis by (simp add: PixOffset_def)
  next
    case 3
    from step [OF this] b S show ?thesis by (simp add: PixOffset_def)
  qed
qed

section \<open>\<open>Set\<close> followed by \<open>At\<close>\<close>

lemma Set_Gray16_ok:
  assumes wf: "wfGray16 p" and inr: "In x y (Rect p)"
  shows "Set_Gray16 p x y (Gray16 v) =
     Inr (p\<lparr>Pix := (Pix p)[nat (PixOffset p x y) := ucast (drop_bit 8 v),
                           nat (PixOffset p x y + 1) := ucast v]\<rparr>)"
  using PixOffset_in_range [OF wf inr] inr
  by (simp add: Set_Gray16_def index_ok_def Let_def)

lemma Gray16At_Set_same:
  assumes wf: "wfGray16 p" and inr: "In x y (Rect p)"
    and set: "Set_Gray16 p x y (Gray16 v) = Inr p'"
  shows "Gray16At p' x y = Inr (Gray16 v)"
proof -
  have p': "p' = p\<lparr>Pix := (Pix p)[nat (PixOffset p x y) := ucast (drop_bit 8 v),
                           nat (PixOffset p x y + 1) := ucast v]\<rparr>"
    using Set_Gray16_ok [OF wf inr, of v] set by simp
  have off: "PixOffset p' x y = PixOffset p x y" by (simp add: p' PixOffset_def)
  have r: "0 \<le> PixOffset p x y" "PixOffset p x y + 1 < int (length (Pix p))"
    using PixOffset_in_range [OF wf inr] by auto
  then have n: "nat (PixOffset p x y) < length (Pix p)" "nat (PixOffset p x y + 1) < length (Pix p)"
    "nat (PixOffset p x y) \<noteq> nat (PixOffset p x y + 1)" by auto
  have "Pix p' ! nat (PixOffset p x y) = ucast (drop_bit 8 v)"
    "Pix p' ! nat (PixOffset p x y + 1) = ucast v"
    using n by (simp_all add: p')
  moreover have "In x y (Rect p')" using inr by (simp add: p')
  moreover have "index_ok (Pix p') (PixOffset p x y)" "index_ok (Pix p') (PixOffset p x y + 1)"
    using r by (simp_all add: p' index_ok_def)
  ultimately show ?thesis
    by (simp add: Gray16At_def off Let_def join_split16)
qed

lemma Gray16At_Set_other:
  assumes wf: "wfGray16 p" and inr: "In x y (Rect p)"
    and set: "Set_Gray16 p x y (Gray16 v) = Inr p'"
    and ne: "x' \<noteq> x \<or> y' \<noteq> y"
  shows "Gray16At p' x' y' = Gray16At p x' y'"
proof (cases "In x' y' (Rect p)")
  case False
  then show ?thesis
    using Set_Gray16_ok [OF wf inr, of v] set by (auto simp: Gray16At_def)
next
  case True
  have p': "p' = p\<lparr>Pix := (Pix p)[nat (PixOffset p x y) := ucast (drop_bit 8 v),
                           nat (PixOffset p x y + 1) := ucast v]\<rparr>"
    using Set_Gray16_ok [OF wf inr, of v] set by simp
  have off: "PixOffset p' x' y' = PixOffset p x' y'" by (simp add: p' PixOffset_def)
  have r: "0 \<le> PixOffset p x y" "0 \<le> PixOffset p x' y'"
    using PixOffset_in_range [OF wf inr] PixOffset_in_range [OF wf True] by auto
  have apart: "PixOffset p x y + 2 \<le> PixOffset p x' y' \<or> PixOffset p x' y' + 2 \<le> PixOffset p x y"
    using PixOffset_apart [OF wf inr True] ne by auto
  have "Pix p' ! nat (PixOffset p x' y') = Pix p ! nat (PixOffset p x' y')"
    "Pix p' ! nat (PixOffset p x' y' + 1) = Pix p ! nat (PixOffset p x' y' + 1)"
    using r apart by (auto simp: p' nth_list_update)
  moreover have "Rect p' = Rect p" "length (Pix p') = length (Pix p)" by (simp_all add: p')
  ultimately show ?thesis
    by (simp add: Gray16At_def off Let_def index_ok_def)
qed

lemma Set_Gray16_wf:
  assumes wf: "wfGray16 p" and inr: "In x y (Rect p)"
    and set: "Set_Gray16 p x y (Gray16 v) = Inr p'"
  shows "wfGray16 p'" "Rect p' = Rect p" "Stride p' = Stride p" "length (Pix p') = length (Pix p)"
  using Set_Gray16_ok [OF wf inr, of v] set wf by (auto simp: wfGray16_def)


section \<open>The loops of \<open>convertToGray\<close>\<close>

lemma At_total: "wfImage img \<Longrightarrow> \<exists>c. At img x y = Inr c"
proof (cases img)
  case (Gray16Img p)
  assume "wfImage img"
  with Gray16Img have wf: "wfGray16 p" by simp
  show ?thesis
  proof (cases "In x y (Rect p)")
    case True
    from PixOffset_in_range [OF wf True] show ?thesis
      using Gray16Img True by (simp add: Gray16At_def index_ok_def Let_def)
  next
    case False
    then show ?thesis using Gray16Img by (simp add: Gray16At_def)
  qed
next
  case (OtherImg r f)
  then show ?thesis by simp
qed

lemma convertRow_spec:
  assumes total: "\<And>x y. \<exists>c. At img x y = Inr c"
  shows "wfGray16 dest \<Longrightarrow> Y (Min_pt (Rect dest)) \<le> y \<Longrightarrow> y < Y (Max_pt (Rect dest)) \<Longrightarrow>
     X (Min_pt (Rect dest)) \<le> x \<Longrightarrow> maxX = X (Max_pt (Rect dest)) \<Longrightarrow>
     \<exists>d. convertRow img y x maxX dest = Inr d \<and> wfGray16 d \<and> Rect d = Rect dest \<and>
         Stride d = Stride dest \<and> length (Pix d) = length (Pix dest) \<and>
         (\<forall>x' y'. Gray16At d x' y' =
            (if y' = y \<and> x \<le> x' \<and> x' < maxX then convertedAt img x' y else Gray16At dest x' y'))"
proof (induction "nat (maxX - x)" arbitrary: x dest)
  case 0
  then have "\<not> x < maxX" by simp
  then show ?case using "0.prems" by (auto simp: convertRow.simps)
next
  case (Suc n)
  then have lt: "x < maxX" by linarith
  obtain c0 where c0: "At img x y = Inr c0" using total by blast
  define v where "v = fst (assertGray16 (gray16Model c0))"
  have v: "gray16Model c0 = Gray16 v" unfolding v_def by (rule gray16Model_is_Gray16)
  have inr: "In x y (Rect dest)" using Suc.prems lt by (simp add: In_def)
  obtain dest' where set: "Set_Gray16 dest x y (Gray16 v) = Inr dest'"
    using Set_Gray16_ok [OF Suc.prems(1) inr] by blast
  note wf' = Set_Gray16_wf [OF Suc.prems(1) inr set]
  have unfold: "convertRow img y x maxX dest = convertRow img y (x + 1) maxX dest'"
    using lt c0 set by (subst convertRow.simps) (simp add: Let_def v_def)
  have "n = nat (maxX - (x + 1))" using Suc.hyps(2) by linarith
  from Suc.hyps(1) [OF this wf'(1)] Suc.prems wf'
  obtain d where d: "convertRow img y (x + 1) maxX dest' = Inr d" "wfGray16 d"
    "Rect d = Rect dest'" "Stride d = Stride dest'" "length (Pix d) = length (Pix dest')"
    "\<forall>x' y'. Gray16At d x' y' =
       (if y' = y \<and> x + 1 \<le> x' \<and> x' < maxX then convertedAt img x' y else Gray16At dest' x' y')"
    by auto
  have px: "Gray16At d x' y' =
       (if y' = y \<and> x \<le> x' \<and> x' < maxX then convertedAt img x' y else Gray16At dest x' y')"
    for x' y'
  proof (cases "x' = x \<and> y' = y")
    case True
    have "Gray16At d x y = Gray16At dest' x y" using d(6) by simp
    also have "\<dots> = Inr (Gray16 v)" by (rule Gray16At_Set_same [OF Suc.prems(1) inr set])
    also have "\<dots> = convertedAt img x y" by (simp add: convertedAt_def c0 v)
    finally show ?thesis using True lt by simp
  next
    case False
    then have ne: "x' \<noteq> x \<or> y' \<noteq> y" by simp
    have "Gray16At dest' x' y' = Gray16At dest x' y'"
      by (rule Gray16At_Set_other [OF Suc.prems(1) inr set ne])
    with d(6) False show ?thesis by auto
  qed
  show ?case using unfold d wf' px by simp
qed

lemma convertRows_spec:
  assumes total: "\<And>x y. \<exists>c. At img x y = Inr c"
  shows "wfGray16 dest \<Longrightarrow> Y (Min_pt (Rect dest)) \<le> y \<Longrightarrow> bounds = Rect dest \<Longrightarrow>
     \<exists>d. convertRows img bounds y dest = Inr d \<and> wfGray16 d \<and> Rect d = Rect dest \<and>
         Stride d = Stride dest \<and> length (Pix d) = length (Pix dest) \<and>
         (\<forall>x' y'. Gray16At d x' y' =
            (if y \<le> y' \<and> In x' y' bounds then convertedAt img x' y' else Gray16At dest x' y'))"
proof (induction "nat (Y (Max_pt bounds) - y)" arbitrary: y dest)
  case 0
  then have "\<not> y < Y (Max_pt bounds)" by simp
  then show ?case using "0.prems" by (auto simp: convertRows.simps In_def)
next
  case (Suc n)
  then have lt: "y < Y (Max_pt bounds)" by linarith
  from convertRow_spec [OF total Suc.prems(1,2), of "X (Min_pt bounds)" "X (Max_pt bounds)"]
    lt Suc.prems(3)
  obtain dest' where r: "convertRow img y (X (Min_pt bounds)) (X (Max_pt bounds)) dest = Inr dest'"
    "wfGray16 dest'" "Rect dest' = Rect dest" "Stride dest' = Stride dest"
    "length (Pix dest') = length (Pix dest)"
    "\<forall>x' y'. Gray16At dest' x' y' =
       (if y' = y \<and> X (Min_pt bounds) \<le> x' \<and> x' < X (Max_pt bounds)
        then convertedAt img x' y else Gray16At dest x' y')"
    by auto
  have unfold: "convertRows img bounds y dest = convertRows img bounds (y + 1) dest'"
    using lt r(1) by (subst convertRows.simps) simp
  have "n = nat (Y (Max_pt bounds) - (y + 1))" using Suc.hyps(2) by linarith
  from Suc.hyps(1) [OF this r(2)] Suc.prems r(3)
  obtain d where d: "convertRows img bounds (y + 1) dest' = Inr d" "wfGray16 d"
    "Rect d = Rect dest'" "Stride d = Stride dest'" "length (Pix d) = length (Pix dest')"
    "\<forall>x' y'. Gray16At d x' y' =
       (if y + 1 \<le> y' \<and> In x' y' bounds then convertedAt img x' y' else Gray16At dest' x' y')"
    by auto
  have px: "Gray16At d x' y' =
       (if y \<le> y' \<and> In x' y' bounds then convertedAt img x' y' else Gray16At dest x' y')"
    for x' y'
    using d(6) r(6) Suc.prems(2,3) lt by (auto simp: In_def)
  show ?case using unfold d r px by simp
qed

lemma NewGray16_ok:
  assumes "0 \<le> Dx r" "0 \<le> Dy r" "2 * Dx r * Dy r < 2 ^ 63" "Dx r < 2 ^ 63"
  shows "NewGray16 r = Inr \<lparr>Pix = replicate (nat (2 * Dx r * Dy r)) 0, Stride = 2 * Dx r, Rect = r\<rparr>"
    and "wfGray16 \<lparr>Pix = replicate (nat (2 * Dx r * Dy r)) 0, Stride = 2 * Dx r, Rect = r\<rparr>"
proof -
  define n where "n = Dx r * Dy r"
  have n: "0 \<le> n" "2 * n < 2 ^ 63" "2 * Dx r * Dy r = 2 * n"
    using assms by (simp_all add: n_def)
  have small: "\<not> 2 ^ 64 \<le> 2 * Dx r" using assms(4) by simp
  have "mul3NonNeg 2 (Dx r) (Dy r) = 2 * n"
    unfolding mul3NonNeg_def n(3) using assms(1,2) small n(1,2) by simp
  then show "NewGray16 r =
      Inr \<lparr>Pix = replicate (nat (2 * Dx r * Dy r)) 0, Stride = 2 * Dx r, Rect = r\<rparr>"
    using n by (simp add: NewGray16_def pixelBufferLength_def Let_def)
  have "(Dy r - 1) * (2 * Dx r) + 2 * Dx r = 2 * n" by (simp add: n_def algebra_simps)
  then show "wfGray16 \<lparr>Pix = replicate (nat (2 * Dx r * Dy r)) 0, Stride = 2 * Dx r, Rect = r\<rparr>"
    unfolding n(3) using assms(1,2) n(1) by (simp add: wfGray16_def)
qed


lemma convertToGray_spec:
  assumes wf: "wfImage img"
  shows "\<exists>dest. convertToGray (Some img) = Inr dest \<and> wfGray16 dest \<and> Rect dest = Bounds img \<and>
           Stride dest = 2 * Dx (Bounds img) \<and>
           length (Pix dest) = nat (2 * Dx (Bounds img) * Dy (Bounds img)) \<and>
           (\<forall>x y. In x y (Bounds img) \<longrightarrow> Gray16At dest x y = convertedAt img x y)"
proof -
  let ?b = "Bounds img"
  let ?d0 = "\<lparr>Pix = replicate (nat (2 * Dx ?b * Dy ?b)) 0, Stride = 2 * Dx ?b, Rect = ?b\<rparr>"
  have dims: "0 \<le> Dx ?b" "0 \<le> Dy ?b" "2 * Dx ?b * Dy ?b < 2 ^ 63" "Dx ?b < 2 ^ 63"
    using wf by (cases img; simp add: wfGray16_def)+
  note new = NewGray16_ok [OF dims]
  have total: "\<And>x y. \<exists>c. At img x y = Inr c" using At_total [OF wf] .
  from convertRows_spec [OF total new(2), of "Y (Min_pt ?b)" ?b]
  obtain d where d: "convertRows img ?b (Y (Min_pt ?b)) ?d0 = Inr d" "wfGray16 d"
    "Rect d = ?b" "Stride d = 2 * Dx ?b" "length (Pix d) = nat (2 * Dx ?b * Dy ?b)"
    "\<forall>x' y'. Gray16At d x' y' =
       (if Y (Min_pt ?b) \<le> y' \<and> In x' y' ?b then convertedAt img x' y' else Gray16At ?d0 x' y')"
    by auto
  have "convertToGray (Some img) = Inr d"
    using new(1) d(1) by (simp add: convertToGray_def Let_def)
  moreover have "\<forall>x y. In x y ?b \<longrightarrow> Gray16At d x y = convertedAt img x y"
    using d(6) by (simp add: In_def)
  ultimately show ?thesis using d(2-5) by blast
qed

section \<open>Equal samples, equal buffers\<close>

lemma Gray16At_bytes:
  assumes wf: "wfGray16 p" and inr: "In x y (Rect p)"
  shows "Gray16At p x y =
     Inr (Gray16 (push_bit 8 (ucast (Pix p ! nat (PixOffset p x y)))
                  OR ucast (Pix p ! nat (PixOffset p x y + 1))))"
  using PixOffset_in_range [OF wf inr] inr by (simp add: Gray16At_def index_ok_def Let_def)

lemma join_inject:
  fixes a b a' b' :: "8 word"
  assumes "push_bit 8 (ucast a :: 16 word) OR ucast b = push_bit 8 (ucast a') OR ucast b'"
  shows "a = a'" and "b = b'"
proof -
  from assms have "(ucast (drop_bit 8 (push_bit 8 (ucast a :: 16 word) OR ucast b)) :: 8 word)
      = ucast (drop_bit 8 (push_bit 8 (ucast a' :: 16 word) OR ucast b'))" by simp
  then show "a = a'" by (simp only: hi_of_join)
  from assms have "(ucast (push_bit 8 (ucast a :: 16 word) OR ucast b) :: 8 word)
      = ucast (push_bit 8 (ucast a' :: 16 word) OR ucast b')" by simp
  then show "b = b'" by (simp only: lo_of_join)
qed

lemma Pix_eqI:
  assumes wfp: "wfGray16 p" and wfq: "wfGray16 q"
    and rect: "Rect q = Rect p" and sp: "Stride p = 2 * Dx (Rect p)" and sq: "Stride q = 2 * Dx (Rect p)"
    and lp: "length (Pix p) = nat (2 * Dx (Rect p) * Dy (Rect p))"
    and lq: "length (Pix q) = nat (2 * Dx (Rect p) * Dy (Rect p))"
    and px: "\<forall>x y. In x y (Rect p) \<longrightarrow> Gray16At q x y = Gray16At p x y"
  shows "Pix q = Pix p"
proof (rule nth_equalityI)
  show "length (Pix q) = length (Pix p)" using lp lq by simp
next
  fix i assume "i < length (Pix q)"
  then have i: "int i < 2 * Dx (Rect p) * Dy (Rect p)" using lq by linarith
  let ?w = "Dx (Rect p)" and ?h = "Dy (Rect p)"
  have wh: "0 \<le> ?w" "0 \<le> ?h" using wfp by (auto simp: wfGray16_def)
  have wpos: "0 < ?w"
  proof (rule ccontr)
    assume "\<not> 0 < ?w"
    with wh have "?w = 0" by simp
    with i show False by simp
  qed
  define dy where "dy = int i div (2 * ?w)"
  define r where "r = int i mod (2 * ?w)"
  define dx where "dx = r div 2"
  define b where "b = r mod 2"
  have r: "0 \<le> r" "r < 2 * ?w" using wpos by (simp_all add: r_def)
  have dx: "0 \<le> dx" "dx < ?w" using r by (simp_all add: dx_def)
  have b: "b = 0 \<or> b = 1" unfolding b_def by presburger
  have dy0: "0 \<le> dy" using wpos by (simp add: dy_def pos_imp_zdiv_nonneg_iff)
  have i_r: "int i = dy * (2 * ?w) + r"
    unfolding dy_def r_def by (rule div_mult_mod_eq [symmetric])
  have "r = dx * 2 + b"
    unfolding dx_def b_def by (rule div_mult_mod_eq [symmetric])
  with i_r have decomp: "int i = dy * (2 * ?w) + dx * 2 + b" by simp
  have "int i < ?h * (2 * ?w)" using i by (simp add: algebra_simps)
  with i_r have "dy * (2 * ?w) < ?h * (2 * ?w)" using r(1) by linarith
  then have dy1: "dy < ?h" using wpos by (intro mult_right_less_imp_less [of dy "2 * ?w" ?h]) auto
  define x where "x = X (Min_pt (Rect p)) + dx"
  define y where "y = Y (Min_pt (Rect p)) + dy"
  have inr: "In x y (Rect p)"
    using dx dy0 dy1 by (simp add: In_def x_def y_def Dx_def Dy_def)
  have offp: "PixOffset p x y = dy * (2 * ?w) + dx * 2"
    by (simp add: PixOffset_def sp x_def y_def)
  have offq: "PixOffset q x y = dy * (2 * ?w) + dx * 2"
    by (simp add: PixOffset_def sq rect x_def y_def)
  have inq: "In x y (Rect q)" using inr rect by simp
  have "Gray16At q x y = Gray16At p x y" using px inr by simp
  then have eq: "push_bit 8 (ucast (Pix q ! nat (PixOffset q x y)) :: 16 word)
                   OR ucast (Pix q ! nat (PixOffset q x y + 1))
               = push_bit 8 (ucast (Pix p ! nat (PixOffset p x y)))
                   OR ucast (Pix p ! nat (PixOffset p x y + 1))"
    by (simp only: Gray16At_bytes [OF wfp inr] Gray16At_bytes [OF wfq inq] sum.inject color.inject)
  note bytes = join_inject [OF eq]
  from b show "Pix q ! i = Pix p ! i"
  proof
    assume "b = 0"
    then have "i = nat (dy * (2 * ?w) + dx * 2)" using decomp by simp
    with bytes(1) show ?thesis by (simp add: offp offq)
  next
    assume "b = 1"
    then have "i = nat (dy * (2 * ?w) + dx * 2 + 1)" using decomp by simp
    with bytes(2) show ?thesis by (simp add: offp offq)
  qed
qed

lemma convertedAt_Gray16Img:
  assumes wf: "wfGray16 p"
  shows "convertedAt (Gray16Img p) x y = Gray16At p x y"
proof (cases "In x y (Rect p)")
  case True
  show ?thesis by (simp add: convertedAt_def Gray16At_bytes [OF wf True])
next
  case False
  then show ?thesis by (simp add: convertedAt_def Gray16At_def)
qed

section \<open>The grayscale transform\<close>

text \<open>
  Claim C2. For every pixel grid (a non-nil image with well-formed bounds),
  \<open>convertToGray\<close> returns, without panicking, a new \<open>Gray16\<close> image whose bounds are
  the bounds of the input, with a buffer of exactly two bytes per pixel, in which every
  coordinate of the bounds holds \<open>Gray16Model.Convert\<close> of the source pixel at that
  coordinate. The result is a function of the input alone, and the input is only read.
\<close>

theorem convertToGray_correct:
  assumes "wfImage img"
  shows "\<exists>dest. convertToGray (Some img) = Inr dest \<and> Rect dest = Bounds img \<and>
           Stride dest = 2 * Dx (Bounds img) \<and>
           int (length (Pix dest)) = 2 * Dx (Bounds img) * Dy (Bounds img) \<and>
           (\<forall>x y. In x y (Bounds img) \<longrightarrow>
              (\<exists>c. At img x y = Inr c \<and> Gray16At dest x y = Inr (gray16Model c)))"
proof -
  from convertToGray_spec [OF assms]
  obtain dest where d: "convertToGray (Some img) = Inr dest" "wfGray16 dest" "Rect dest = Bounds img"
    "Stride dest = 2 * Dx (Bounds img)"
    "length (Pix dest) = nat (2 * Dx (Bounds img) * Dy (Bounds img))"
    "\<forall>x y. In x y (Bounds img) \<longrightarrow> Gray16At dest x y = convertedAt img x y"
    by blast
  have "0 \<le> Dx (Bounds img) * Dy (Bounds img)"
    using d(2,3) by (simp add: wfGray16_def)
  then have len: "int (length (Pix dest)) = 2 * Dx (Bounds img) * Dy (Bounds img)"
    using d(5) by simp
  have "\<exists>c. At img x y = Inr c \<and> Gray16At dest x y = Inr (gray16Model c)"
    if "In x y (Bounds img)" for x y
  proof -
    obtain c where c: "At img x y = Inr c" using At_total [OF assms] by blast
    with d(6) that show ?thesis by (auto simp: convertedAt_def)
  qed
  with d(1,3,4) len show ?thesis by blast
qed

theorem convertToGray_correct_witness:
  "wfImage sampleImage \<and> In 0 0 (Bounds sampleImage) \<and> In 1 0 (Bounds sampleImage) \<and>
   (\<exists>dest. convertToGray (Some sampleImage) = Inr dest \<and>
      Rect dest = \<lparr>Min_pt = \<lparr>X = 0, Y = 0\<rparr>, Max_pt = \<lparr>X = 2, Y = 1\<rparr>\<rparr> \<and>
      Stride dest = 4 \<and> length (Pix dest) = 4 \<and>
      Gray16At dest 0 0 = Inr (Gray16 0x4C8B) \<and> Gray16At dest 1 0 = Inr (Gray16 0x1234))"
proof -
  have wf: "wfImage sampleImage" by (simp add: sampleImage_def Dx_def Dy_def)
  have i0: "In 0 0 (Bounds sampleImage)" and i1: "In 1 0 (Bounds sampleImage)"
    by (simp_all add: sampleImage_def In_def)
  have a0: "At sampleImage 0 0 = Inr (RGBAColor 0xFFFF 0 0 0xFFFF)"
    and a1: "At sampleImage 1 0 = Inr (Gray16 0x1234)"
    by (simp_all add: sampleImage_def)
  have g: "gray16Model (RGBAColor 0xFFFF 0 0 0xFFFF) = Gray16 0x4C8B" by simp
  from convertToGray_correct [OF wf]
  obtain dest where d: "convertToGray (Some sampleImage) = Inr dest" "Rect dest = Bounds sampleImage"
    "Stride dest = 2 * Dx (Bounds sampleImage)"
    "int (length (Pix dest)) = 2 * Dx (Bounds sampleImage) * Dy (Bounds sampleImage)"
    "\<forall>x y. In x y (Bounds sampleImage) \<longrightarrow>
       (\<exists>c. At sampleImage x y = Inr c \<and> Gray16At dest x y = Inr (gray16Model c))"
    by blast
  from d(5) i0 a0 g have p0: "Gray16At dest 0 0 = Inr (Gray16 0x4C8B)" by fastforce
  from d(5) i1 a1 have p1: "Gray16At dest 1 0 = Inr (Gray16 0x1234)" by fastforce
  have "Rect dest = \<lparr>Min_pt = \<lparr>X = 0, Y = 0\<rparr>, Max_pt = \<lparr>X = 2, Y = 1\<rparr>\<rparr>"
    "Stride dest = 4" "length (Pix dest) = 4"
    using d(2,3,4) by (simp_all add: sampleImage_def Dx_def Dy_def)
  with wf i0 i1 d(1) p0 p1 show ?thesis by blast
qed

text \<open>
  Claim C3. The grayscale transform is idempotent: for every pixel grid, converting the
  result of \<open>convertToGray\<close> again yields the same image, with the same bounds, stride
  and buffer, hence the same pixel at every coordinate.
\<close>

theorem convertToGray_idempotent:
  assumes "wfImage img"
  shows "\<exists>dest. convertToGray (Some img) = Inr dest \<and>
           convertToGray (Some (Gray16Img dest)) = Inr dest"
proof -
  from convertToGray_spec [OF assms]
  obtain p where p: "convertToGray (Some img) = Inr p" "wfGray16 p" "Rect p = Bounds img"
    "Stride p = 2 * Dx (Bounds img)"
    "length (Pix p) = nat (2 * Dx (Bounds img) * Dy (Bounds img))"
    by blast
  have dims: "Dx (Bounds img) < 2 ^ 63" "2 * Dx (Bounds img) * Dy (Bounds img) < 2 ^ 63"
    using assms by (cases img; simp)+
  have wf2: "wfImage (Gray16Img p)" using p(2,3) dims by simp
  from convertToGray_spec [OF wf2]
  obtain q where q: "convertToGray (Some (Gray16Img p)) = Inr q" "wfGray16 q" "Rect q = Rect p"
    "Stride q = 2 * Dx (Rect p)" "length (Pix q) = nat (2 * Dx (Rect p) * Dy (Rect p))"
    "\<forall>x y. In x y (Rect p) \<longrightarrow> Gray16At q x y = convertedAt (Gray16Img p) x y"
    by auto
  have "Pix q = Pix p"
    using p q by (intro Pix_eqI) (simp_all add: convertedAt_Gray16Img)
  then have "q = p" using q(3,4) p(3,4) by simp
  with p(1) q(1) show ?thesis by simp
qed

theorem convertToGray_idempotent_witness:
  "wfImage sampleImage \<and> convertToGray (Some sampleImage) = Inr sampleGray \<and>
   convertToGray (Some (Gray16Img sampleGray)) = Inr sampleGray"
proof -
  have wf: "wfImage sampleImage" by (simp add: sampleImage_def Dx_def Dy_def)
  from convertToGray_idempotent [OF wf] sample_convert wf show ?thesis by simp
qed

section \<open>The thumbnail fits the box and keeps the aspect ratio\<close>

lemma div_bounds:
  fixes n b :: int
  assumes "0 < b"
  shows "n div b * b \<le> n" and "n < (n div b + 1) * b"
proof -
  define m where "m = n div b * b"
  have eq: "n = m + n mod b" unfolding m_def by (rule div_mult_mod_eq [symmetric])
  have r: "0 \<le> n mod b" "n mod b < b" using assms by simp_all
  have e: "(n div b + 1) * b = m + b" unfolding m_def by (simp add: algebra_simps)
  show "n div b * b \<le> n" using eq r unfolding m_def [symmetric] by linarith
  show "n < (n div b + 1) * b" unfolding e using eq r by linarith
qed

text \<open>Scaling one side by \<open>a / b\<close>, rounded down but at least 1, is within one unit of exact.\<close>

lemma scaled_side:
  fixes s a b :: int
  assumes "0 < s" "0 < a" "0 < b"
  shows "\<bar>max 1 (s * a div b) * b - s * a\<bar> < b"
proof -
  define n where "n = s * a"
  define q where "q = n div b"
  have q: "q * b \<le> n" "n < (q + 1) * b"
    unfolding q_def using div_bounds [OF assms(3)] by auto
  have pos: "0 < n" unfolding n_def using assms by simp
  have q0: "0 \<le> q" unfolding q_def using pos assms(3) by (simp add: pos_imp_zdiv_nonneg_iff)
  have e: "(q + 1) * b = q * b + b" by (simp add: algebra_simps)
  have "\<bar>max 1 q * b - n\<bar> < b"
  proof (cases "q = 0")
    case True
    then have "n < b" using q(2) by simp
    with True pos show ?thesis by simp
  next
    case False
    with q0 have "max 1 q = q" by simp
    with q e show ?thesis by simp
  qed
  then show ?thesis unfolding q_def n_def .
qed

text \<open>
  The two-step case: the height, scaled first, is still above the box, and the width is
  scaled again from the rounded height.
\<close>

lemma scaled_twice:
  fixes w h :: int
  assumes w: "0 < w" and h: "0 < h" and big: "300 < h * 300 div w"
  shows "\<bar>max 1 (300 * 300 div (h * 300 div w)) * h - 300 * w\<bar> < h"
proof -
  define q where "q = h * 300 div w"
  define m where "m = 300 * 300 div q"
  have q300: "300 < q" using big by (simp add: q_def)
  have q: "q * w \<le> h * 300" "h * 300 < (q + 1) * w"
    unfolding q_def using div_bounds [OF w] by auto
  have m: "m * q \<le> 90000" "90000 < (m + 1) * q"
    unfolding m_def using div_bounds [of q "300 * 300"] q300 by auto
  have m0: "0 \<le> m" unfolding m_def using q300 by (simp add: pos_imp_zdiv_nonneg_iff)
  have mq: "m < q"
  proof (rule ccontr)
    assume "\<not> m < q"
    then have "q \<le> m" by simp
    then have "q * q \<le> m * q" using q300 by (intro mult_right_mono) auto
    moreover have "300 * 300 < q * q" using q300 by (intro mult_strict_mono) auto
    ultimately show False using m(1) by simp
  qed
  text \<open>lower bound: \<open>300 * w < (m + 1) * h\<close>\<close>
  have "300 * w * q = 300 * (q * w)" by (simp add: algebra_simps)
  also have "\<dots> \<le> 300 * (h * 300)" using q(1) by simp
  also have "\<dots> = 90000 * h" by simp
  also have "\<dots> < (m + 1) * q * h" using m(2) h by simp
  finally have "(300 * w) * q < ((m + 1) * h) * q" by (simp add: algebra_simps)
  then have lower: "300 * w < (m + 1) * h"
    using q300 by (intro mult_right_less_imp_less [of "300 * w" q "(m + 1) * h"]) auto
  text \<open>upper bound: \<open>(m - 1) * h < 300 * w\<close>\<close>
  have upper: "(m - 1) * h < 300 * w"
  proof (cases "m = 0")
    case True
    then show ?thesis using w h by simp
  next
    case False
    with m0 have m1: "0 \<le> m - 1" by simp
    have "(m - 1) * (q + 1) = m * q + (m - q) - 1" by (simp add: algebra_simps)
    also have "\<dots> < 90000" using m(1) mq by simp
    finally have a: "(m - 1) * (q + 1) < 90000" .
    have "(m - 1) * h * 300 = (m - 1) * (h * 300)" by simp
    also have "\<dots> \<le> (m - 1) * ((q + 1) * w)" using q(2) m1 by (intro mult_left_mono) auto
    also have "\<dots> = ((m - 1) * (q + 1)) * w" by simp
    also have "\<dots> < 90000 * w" using a w by simp
    finally have "((m - 1) * h) * 300 < (300 * w) * 300" by simp
    then show ?thesis by (simp add: mult.commute)
  qed
  have "\<bar>max 1 m * h - 300 * w\<bar> < h"
  proof (cases "m = 0")
    case True
    then have "300 * w < h" using lower by simp
    with True w show ?thesis by simp
  next
    case False
    with m0 have "max 1 m = m" by simp
    moreover have "(m + 1) * h = m * h + h" "(m - 1) * h = m * h - h" by (simp_all add: algebra_simps)
    ultimately show ?thesis using lower upper by simp
  qed
  then show ?thesis unfolding m_def q_def .
qed


lemma int_scaled:
  "int (max 1 (a * b div c)) = max 1 (int a * int b div int c)"
proof -
  have e: "int a * int b div int c = int (a * b div c)" by (simp add: zdiv_int)
  show ?thesis unfolding e of_nat_max by simp
qed

text \<open>
  Claim C4. For every pixel grid (with at least one pixel) the thumbnail has neither
  dimension above 300 and keeps the aspect ratio of the input within rounding: the
  cross product of the two sizes differs by less than the longer input side, that is the
  shorter output side is within one pixel of its exactly proportional value. A 600x300
  input gives exactly 300x150.
\<close>

theorem thumbnail_fits_box:
  assumes w: "0 < w" and h: "0 < h" and t: "thumbnailSize 300 300 w h = (nw, nh)"
  shows "nw \<le> 300 \<and> nh \<le> 300 \<and>
         \<bar>int nw * int h - int nh * int w\<bar> < int (max w h) \<and>
         thumbnailSize 300 300 600 300 = (300, 150)"
proof -
  have ex: "thumbnailSize 300 300 600 300 = (300, 150)"
    by (simp add: thumbnailSize_def)
  have iw: "0 < int w" and ih: "0 < int h" using w h by simp_all
  consider (inside) "w \<le> 300" "h \<le> 300"
    | (wide) "300 < w" "max 1 (h * 300 div w) \<le> 300"
    | (wide_tall) "300 < w" "300 < max 1 (h * 300 div w)"
    | (tall) "w \<le> 300" "300 < h"
    by linarith
  then have "nw \<le> 300 \<and> nh \<le> 300 \<and> \<bar>int nw * int h - int nh * int w\<bar> < int (max w h)"
  proof cases
    case inside
    then have "nw = w" "nh = h" using t by (simp_all add: thumbnailSize_def)
    then show ?thesis using inside w by simp
  next
    case wide
    then have r: "nw = 300" "nh = max 1 (h * 300 div w)"
      using t by (auto simp: thumbnailSize_def Let_def split: if_splits)
    have "\<bar>max 1 (int h * 300 div int w) * int w - int h * 300\<bar> < int w"
      using scaled_side [OF ih _ iw, of 300] by simp
    then have "\<bar>int nh * int w - int h * 300\<bar> < int w"
      unfolding r(2) int_scaled by simp
    then have "\<bar>int nw * int h - int nh * int w\<bar> < int w" unfolding r(1) by simp
    then show ?thesis using wide r by simp
  next
    case wide_tall
    then have q: "300 < h * 300 div w" "max 1 (h * 300 div w) = h * 300 div w" by simp_all
    then have r: "nw = max 1 (300 * 300 div (h * 300 div w))" "nh = 300"
      using t wide_tall by (auto simp: thumbnailSize_def Let_def split: if_splits)
    have "(300::int) < int (h * 300 div w)" using q(1) by linarith
    then have qi: "300 < int h * 300 div int w" by (simp add: zdiv_int)
    have c: "int (h * 300 div w) = int h * 300 div int w" by (simp add: zdiv_int)
    have "int nw = max 1 (int 300 * int 300 div int (h * 300 div w))"
      unfolding r(1) by (rule int_scaled)
    then have "int nw = max 1 (300 * 300 div (int h * 300 div int w))"
      unfolding c by simp
    with scaled_twice [OF iw ih qi]
    have "\<bar>int nw * int h - 300 * int w\<bar> < int h" by simp
    then have cross: "\<bar>int nw * int h - int nh * int w\<bar> < int h" unfolding r(2) by simp
    have "300 * 300 div (h * 300 div w) \<le> 300 * 300 div 300"
      using q(1) by (intro div_le_mono2) auto
    then have "nw \<le> 300" unfolding r(1) by simp
    with cross r(2) show ?thesis by simp
  next
    case tall
    then have r: "nw = max 1 (w * 300 div h)" "nh = 300"
      using t by (auto simp: thumbnailSize_def Let_def split: if_splits)
    have "\<bar>max 1 (int w * 300 div int h) * int h - int w * 300\<bar> < int h"
      using scaled_side [OF iw _ ih, of 300] by simp
    then have "\<bar>int nw * int h - int w * 300\<bar> < int h"
      unfolding r(1) int_scaled by simp
    then have cross: "\<bar>int nw * int h - int nh * int w\<bar> < int h"
      unfolding r(2) by (simp add: mult.commute)
    have "w * 300 div h \<le> w * 300 div 300"
      using tall by (intro div_le_mono2) auto
    then have "nw \<le> 300" unfolding r(1) using tall by simp
    with cross r(2) show ?thesis by simp
  qed
  with ex show ?thesis by simp
qed

theorem thumbnail_fits_box_witness:
  "(0::nat) < 4000 \<and> (0::nat) < 3000 \<and> thumbnailSize 300 300 4000 3000 = (300, 225) \<and>
   \<bar>int 300 * int 3000 - int 225 * int 4000\<bar> < int (max 4000 3000) \<and>
   thumbnailSize 300 300 301 30000 = (3, 300) \<and>
   \<bar>int 3 * int 30000 - int 300 * int 301\<bar> < int (max 301 30000) \<and>
   thumbnailSize 300 300 600 300 = (300, 150)"
proof -
  have a: "thumbnailSize 300 300 4000 3000 = (300, 225)"
    and b: "thumbnailSize 300 300 301 30000 = (3, 300)"
    by (simp_all add: thumbnailSize_def)
  from thumbnail_fits_box [OF _ _ a] thumbnail_fits_box [OF _ _ b] a b show ?thesis by simp
qed

end
